theory Spec2Isabelle
  imports Complex_Main
begin

section \<open>Values, errors and the accumulator's state\<close>

text \<open>
  The module \<^verbatim>\<open>losses/losses.py\<close> holds the class \<^verbatim>\<open>LossManager\<close> and the loss
  functions that register their terms with it. Python floats and the scalar tensors that
  carry a loss value are idealised as real numbers: rounding, overflow, infinities and NaN
  are outside this model. A weight and a loss value are both of type \<open>real\<close>.

  Every exception the source can raise on the paths modelled here is a value of
  \<open>error\<close>: the four Python exceptions, and \<open>LibraryError\<close> for an exception raised
  inside a torch or numpy function. \<open>NonFinite\<close> is not an exception: a tensor division by zero
  or a logarithm of a non-positive number returns an infinity or NaN and the code goes on.
  The model computes with reals, so it stops there and reports \<open>NonFinite\<close>: it says that
  such an operation occurred, and nothing about what the function goes on to return.
\<close>

datatype error = ZeroDivisionError | KeyError | TypeError | IndexError | LibraryError | NonFinite

text \<open>
  A model parameter, as far as \<^verbatim>\<open>__init__\<close> looks at it: the flag
  \<^verbatim>\<open>requires_grad\<close> and the shape \<^verbatim>\<open>param.size()\<close>.
\<close>

record param =
  requires_grad :: bool
  size_of :: "nat list"

text \<open>
  The history is a dict from a loss name to the list of the values recorded for it. The
  dict is owned by the caller; the accumulator keeps a reference and mutates the lists in
  place, so the model carries the dict inside the state and returns it updated. The lists
  stored under different names are taken to be different objects.
\<close>

type_synonym history = "string \<Rightarrow> real list option"

record LossManager =
  reg_params :: "param list"
  l1_coeff :: real
  loss_history :: "history option"
  names :: "string list"
  weights :: "real list"
  losses :: "real list"

section \<open>Construction\<close>

text \<open>
  \<^verbatim>\<open>".bias" not in name\<close> is Python's substring test.
\<close>

fun starts_with :: "string \<Rightarrow> string \<Rightarrow> bool" where
  "starts_with [] s = True"
| "starts_with (p # ps) [] = False"
| "starts_with (p # ps) (c # cs) = (p = c \<and> starts_with ps cs)"

fun contains :: "string \<Rightarrow> string \<Rightarrow> bool" where
  "contains p [] = starts_with p []"
| "contains p (c # cs) = (starts_with p (c # cs) \<or> contains p cs)"

text \<open>
  \<^verbatim>\<open>reduce(lambda x, y: x * y, param.size())\<close> has no initial value: on an empty
  shape (a zero-dimensional parameter) it raises \<^verbatim>\<open>TypeError\<close>.
\<close>

fun reduce_mul :: "nat list \<Rightarrow> error + nat" where
  "reduce_mul [] = Inl TypeError"
| "reduce_mul (x # xs) = Inr (foldl (*) x xs)"

text \<open>The list comprehension over \<^verbatim>\<open>self.reg_params\<close>; it stops at the first raise.\<close>

fun element_counts :: "param list \<Rightarrow> error + nat list" where
  "element_counts [] = Inr []"
| "element_counts (p # ps) =
     (case reduce_mul (size_of p) of
        Inl e \<Rightarrow> Inl e
      | Inr n \<Rightarrow> (case element_counts ps of Inl e \<Rightarrow> Inl e | Inr ns \<Rightarrow> Inr (n # ns)))"

text \<open>
  \<^verbatim>\<open>__init__(self, model, l1_reg=0.0, loss_history=None)\<close>. The model is given by
  \<^verbatim>\<open>model.named_parameters()\<close>. \<^verbatim>\<open>l1_reg / n_params\<close> divides a float by an
  int: with \<^verbatim>\<open>n_params == 0\<close> Python raises \<^verbatim>\<open>ZeroDivisionError\<close>, before any
  attribute after \<^verbatim>\<open>reg_params\<close> is set, so no object is returned.
\<close>

definition regularizable :: "(string \<times> param) list \<Rightarrow> param list" where
  "regularizable model =
     [p. (name, p) \<leftarrow> model, \<not> contains ''.bias'' name \<and> requires_grad p]"

definition LossManager_init ::
  "(string \<times> param) list \<Rightarrow> real \<Rightarrow> history option \<Rightarrow> error + LossManager" where
  "LossManager_init model l1_reg loss_history_arg =
     (case element_counts (regularizable model) of
        Inl e \<Rightarrow> Inl e
      | Inr ns \<Rightarrow>
          (let n_params = foldl (+) 0 ns in
           if n_params = 0 then Inl ZeroDivisionError
           else Inr \<lparr>reg_params = regularizable model,
                     l1_coeff = l1_reg / real n_params,
                     loss_history = loss_history_arg,
                     names = [], weights = [], losses = []\<rparr>))"

section \<open>The accumulator's operations\<close>

definition addToLosses :: "LossManager \<Rightarrow> string \<Rightarrow> real \<Rightarrow> real \<Rightarrow> LossManager" where
  "addToLosses lm name weight loss_value =
     lm\<lparr>names := names lm @ [name],
        weights := weights lm @ [weight],
        losses := losses lm @ [loss_value]\<rparr>"

text \<open>
  The body of \<^verbatim>\<open>updateLossHistory\<close>'s loop, over the triples that
  \<^verbatim>\<open>zip(self.names, self.weights, self.losses)\<close> yields.
  \<^verbatim>\<open>self.loss_history[name]\<close> raises \<^verbatim>\<open>KeyError\<close> for a name that is not a key;
  the exception leaves the loop with the dict as the earlier iterations made it, so the
  error carries that dict. \<^verbatim>\<open>xs[-1] += c\<close> overwrites the last element of a
  non-empty list.
\<close>

fun updateLossHistory_loop ::
  "history \<Rightarrow> (string \<times> real \<times> real) list \<Rightarrow> (error \<times> history) + history" where
  "updateLossHistory_loop h [] = Inr h"
| "updateLossHistory_loop h ((name, w, loss) # rest) =
     (if w > 0 then
        (case h name of
           None \<Rightarrow> Inl (KeyError, h)
         | Some xs \<Rightarrow>
             (if length xs > 0
              then updateLossHistory_loop
                     (h(name \<mapsto> xs[length xs - 1 := xs ! (length xs - 1) + w * loss])) rest
              else updateLossHistory_loop (h(name \<mapsto> xs @ [w * loss])) rest))
      else updateLossHistory_loop h rest)"

definition updateLossHistory :: "LossManager \<Rightarrow> (error \<times> LossManager) + LossManager" where
  "updateLossHistory lm =
     (case loss_history lm of
        None \<Rightarrow> Inr lm
      | Some h \<Rightarrow>
          (case updateLossHistory_loop h (zip (names lm) (zip (weights lm) (losses lm))) of
             Inl (e, h') \<Rightarrow> Inl (e, lm\<lparr>loss_history := Some h'\<rparr>)
           | Inr h' \<Rightarrow> Inr (lm\<lparr>loss_history := Some h'\<rparr>)))"

text \<open>
  \<^verbatim>\<open>sum([self.weights[i] * self.losses[i] for i in range(len(self.losses))])\<close>:
  the index runs over \<^verbatim>\<open>losses\<close>, so a shorter \<^verbatim>\<open>weights\<close> raises
  \<^verbatim>\<open>IndexError\<close>. Python's \<^verbatim>\<open>sum\<close> starts from 0 and adds from the left.
\<close>

definition computeTotalLoss :: "LossManager \<Rightarrow> error + real" where
  "computeTotalLoss lm =
     (if length (losses lm) \<le> length (weights lm)
      then Inr (foldl (+) 0
                  (map (\<lambda>i. weights lm ! i * losses lm ! i) [0..<length (losses lm)]))
      else Inl IndexError)"

definition resetLosses :: "LossManager \<Rightarrow> LossManager" where
  "resetLosses lm = lm\<lparr>names := [], weights := [], losses := []\<rparr>"

subsection \<open>Sequences of calls\<close>

text \<open>
  The terms recorded in an accumulator, read index by index across the three lists.
\<close>

definition recorded :: "LossManager \<Rightarrow> (string \<times> real \<times> real) list" where
  "recorded lm = zip (names lm) (zip (weights lm) (losses lm))"

text \<open>A sequence of \<^verbatim>\<open>addToLosses\<close> calls, one per triple, in the order of the list.\<close>

fun add_all :: "LossManager \<Rightarrow> (string \<times> real \<times> real) list \<Rightarrow> LossManager" where
  "add_all lm [] = lm"
| "add_all lm ((name, weight, loss_value) # ts) =
     add_all (addToLosses lm name weight loss_value) ts"

text \<open>
  A caller's use of one accumulator: any sequence of the four operations. A call of
  \<^verbatim>\<open>computeTotalLoss\<close> assigns nothing; a call of \<^verbatim>\<open>updateLossHistory\<close> leaves the
  accumulator as it is when the call returns or raises.
\<close>

datatype call = Add string real real | Total | Commit | Reset

fun exec :: "LossManager \<Rightarrow> call \<Rightarrow> LossManager" where
  "exec lm (Add name weight loss_value) = addToLosses lm name weight loss_value"
| "exec lm Total = lm"
| "exec lm Commit = (case updateLossHistory lm of Inl (e, lm') \<Rightarrow> lm' | Inr lm' \<Rightarrow> lm')"
| "exec lm Reset = resetLosses lm"

fun run :: "LossManager \<Rightarrow> call list \<Rightarrow> LossManager" where
  "run lm [] = lm"
| "run lm (c # cs) = run (exec lm c) cs"

text \<open>
  The terms a sequence of calls has added since the last reset, starting from the terms
  \<open>acc\<close> already there.
\<close>

fun pending :: "(string \<times> real \<times> real) list \<Rightarrow> call list \<Rightarrow> (string \<times> real \<times> real) list" where
  "pending acc [] = acc"
| "pending acc (Add name weight loss_value # cs) = pending (acc @ [(name, weight, loss_value)]) cs"
| "pending acc (Reset # cs) = pending [] cs"
| "pending acc (c # cs) = pending acc cs"

definition lockstep :: "LossManager \<Rightarrow> bool" where
  "lockstep lm \<longleftrightarrow>
     length (names lm) = length (weights lm) \<and> length (weights lm) = length (losses lm)"

subsection \<open>The commit as the specification words it\<close>

text \<open>
  The specification describes \<^verbatim>\<open>commitToHistory\<close> term by term: for every recorded
  term with weight > 0, a history sequence that already has an entry gets
  \<open>weight * value\<close> added to its most recent entry, and an empty one gets a new entry
  \<open>weight * value\<close>. The three definitions below follow these words, not the source; a
  name without a slot is outside this description and is left alone here.
\<close>

definition commit_entry :: "real list \<Rightarrow> real \<Rightarrow> real list" where
  "commit_entry xs c = (if xs \<noteq> [] then butlast xs @ [last xs + c] else [c])"

fun commitToHistory_term :: "history \<Rightarrow> string \<times> real \<times> real \<Rightarrow> history" where
  "commitToHistory_term h (name, w, v) =
     (case h name of None \<Rightarrow> h | Some xs \<Rightarrow> h(name \<mapsto> commit_entry xs (w * v)))"

definition commitToHistory_spec :: "history \<Rightarrow> (string \<times> real \<times> real) list \<Rightarrow> history" where
  "commitToHistory_spec h ts = foldl commitToHistory_term h (filter (\<lambda>(name, w, v). w > 0) ts)"

section \<open>Tensors over the reals\<close>
















section \<open>The loss functions\<close>


subsection \<open>Forward model, inverse model, L1, reward model\<close>





subsection \<open>Reconstruction and autoencoder\<close>



subsection \<open>Variational autoencoder\<close>



subsection \<open>Triplet loss\<close>



subsection \<open>Mutual information and reward prior\<close>












subsection \<open>Robotic priors\<close>





subsection \<open>Episode prior\<close>



subsection \<open>The triplet loss as the specification words it\<close>



subsection \<open>Well-shaped minibatches\<close>


section \<open>Properties of the accumulator\<close>

subsection \<open>Lock-step lists and the recorded terms\<close>

lemma lockstep_addToLosses: "lockstep lm \<Longrightarrow> lockstep (addToLosses lm n w v)"
  by (simp add: lockstep_def addToLosses_def)

lemma recorded_addToLosses:
  "lockstep lm \<Longrightarrow> recorded (addToLosses lm n w v) = recorded lm @ [(n, w, v)]"
  by (simp add: lockstep_def addToLosses_def recorded_def)

lemma lockstep_resetLosses: "lockstep (resetLosses lm)"
  by (simp add: lockstep_def resetLosses_def)

lemma recorded_resetLosses: "recorded (resetLosses lm) = []"
  by (simp add: recorded_def resetLosses_def)

lemma exec_Commit_lists:
  "names (exec lm Commit) = names lm \<and> weights (exec lm Commit) = weights lm \<and>
   losses (exec lm Commit) = losses lm"
  by (auto simp: updateLossHistory_def split: option.splits sum.splits prod.splits)

lemma lockstep_exec: "lockstep lm \<Longrightarrow> lockstep (exec lm c)"
proof (cases c)
  case Commit
  assume "lockstep lm"
  then show ?thesis unfolding Commit lockstep_def using exec_Commit_lists [of lm]
    by (simp del: exec.simps)
qed (simp_all add: lockstep_addToLosses lockstep_resetLosses)

lemma recorded_exec_Commit: "recorded (exec lm Commit) = recorded lm"
  unfolding recorded_def using exec_Commit_lists [of lm] by (simp del: exec.simps)

lemma run_pending:
  "lockstep lm \<Longrightarrow> lockstep (run lm cs) \<and> recorded (run lm cs) = pending (recorded lm) cs"
proof (induction cs arbitrary: lm)
  case Nil
  then show ?case by simp
next
  case (Cons c cs)
  have l: "lockstep (exec lm c)" using Cons.prems by (rule lockstep_exec)
  show ?case
  proof (cases c)
    case (Add n w v)
    then show ?thesis using Cons.IH [OF l] Cons.prems
      by (simp add: recorded_addToLosses)
  next
    case Total
    then show ?thesis using Cons.IH [OF l] by simp
  next
    case Commit
    then show ?thesis using Cons.IH [OF l] recorded_exec_Commit [of lm]
      by (simp del: exec.simps)
  next
    case Reset
    then show ?thesis using Cons.IH [OF l] by (simp add: recorded_resetLosses)
  qed
qed

lemma init_fresh:
  "LossManager_init model l1 h = Inr lm \<Longrightarrow>
   names lm = [] \<and> weights lm = [] \<and> losses lm = [] \<and> loss_history lm = h"
  by (auto simp: LossManager_init_def Let_def split: sum.splits if_splits)

lemma computeTotalLoss_recorded:
  "lockstep lm \<Longrightarrow>
   computeTotalLoss lm = Inr (foldl (\<lambda>s (n, w, v). s + w * v) 0 (recorded lm))"
proof -
  assume l: "lockstep lm"
  have "map (\<lambda>i. weights lm ! i * losses lm ! i) [0..<length (losses lm)] =
        map (\<lambda>(n, w, v). w * v) (recorded lm)"
    using l by (auto simp: lockstep_def recorded_def intro!: nth_equalityI)
  moreover have "\<And>a. foldl (+) (a::real) (map (\<lambda>(n, w, v). w * v) ts) =
      foldl (\<lambda>s (n, w, v). s + w * v) a ts" for ts :: "(string \<times> real \<times> real) list"
    by (induction ts) auto
  ultimately show ?thesis using l by (simp add: computeTotalLoss_def lockstep_def)
qed

lemma add_all_lockstep_recorded:
  "lockstep lm \<Longrightarrow> lockstep (add_all lm ts) \<and> recorded (add_all lm ts) = recorded lm @ ts"
proof (induction ts arbitrary: lm)
  case Nil
  then show ?case by simp
next
  case (Cons t ts)
  obtain n w v where t: "t = (n, w, v)" by (cases t) auto
  show ?case using Cons.IH [OF lockstep_addToLosses [OF Cons.prems, of n w v]] Cons.prems
    by (simp add: t recorded_addToLosses)
qed

lemma foldl_terms_sum:
  "foldl (\<lambda>s (n, w, v). s + w * v) (a::real) ts = a + (\<Sum>(n, w, v)\<leftarrow>ts. w * v)"
  for ts :: "(string \<times> real \<times> real) list"
  by (induction ts arbitrary: a) (auto simp: algebra_simps)

lemma lockstep_fresh: "names lm = [] \<Longrightarrow> weights lm = [] \<Longrightarrow> losses lm = [] \<Longrightarrow> lockstep lm \<and> recorded lm = []"
  by (simp add: lockstep_def recorded_def)

lemma total_after_adds:
  assumes "names lm = []" "weights lm = []" "losses lm = []"
  shows "computeTotalLoss (add_all lm ts) = Inr (\<Sum>(n, w, v)\<leftarrow>ts. w * v)"
proof -
  have f: "lockstep lm \<and> recorded lm = []" using assms by (rule lockstep_fresh)
  then have "lockstep (add_all lm ts)" "recorded (add_all lm ts) = ts"
    using add_all_lockstep_recorded [of lm ts] by simp_all
  then show ?thesis
    by (simp add: computeTotalLoss_recorded foldl_terms_sum)
qed

lemma last_update_commit_entry:
  "xs \<noteq> [] \<Longrightarrow> xs[length xs - 1 := xs ! (length xs - 1) + c] = commit_entry xs c"
  by (induction xs rule: rev_induct) (simp_all add: commit_entry_def)

lemma loop_step_positive:
  "w > 0 \<Longrightarrow> h name = Some xs \<Longrightarrow>
   updateLossHistory_loop h ((name, w, v) # rest) =
   updateLossHistory_loop (commitToHistory_term h (name, w, v)) rest"
proof (cases "xs = []")
  case True
  assume "w > 0" "h name = Some xs"
  then show ?thesis using True by (simp add: commit_entry_def)
next
  case False
  assume "w > 0" "h name = Some xs"
  then show ?thesis using False last_update_commit_entry [OF False, of "w * v"] by simp
qed

lemma loop_step_skipped:
  "\<not> w > 0 \<Longrightarrow> updateLossHistory_loop h ((name, w, v) # rest) = updateLossHistory_loop h rest"
  by simp

lemma dom_commitToHistory_term: "h n \<noteq> None \<Longrightarrow> dom (commitToHistory_term h (n, w, v)) = dom h"
  by (auto split: option.splits)

lemma updateLossHistory_loop_spec:
  "(\<forall>(n, w, v) \<in> set ts. w > 0 \<longrightarrow> n \<in> dom h) \<Longrightarrow>
   updateLossHistory_loop h ts = Inr (commitToHistory_spec h ts)"
proof (induction ts arbitrary: h)
  case Nil
  then show ?case by (simp add: commitToHistory_spec_def)
next
  case (Cons t ts)
  obtain n w v where t: "t = (n, w, v)" by (cases t) auto
  show ?case
  proof (cases "w > 0")
    case True
    then obtain xs where xs: "h n = Some xs" using Cons.prems t by auto
    have d: "dom (commitToHistory_term h (n, w, v)) = dom h"
      using xs by (intro dom_commitToHistory_term) simp
    have "updateLossHistory_loop (commitToHistory_term h (n, w, v)) ts =
          Inr (commitToHistory_spec (commitToHistory_term h (n, w, v)) ts)"
      using Cons.prems unfolding t by (intro Cons.IH) (simp add: d del: commitToHistory_term.simps)
    then show ?thesis
      unfolding t loop_step_positive [where h = h and name = n, OF True xs] using True
      by (simp add: commitToHistory_spec_def)
  next
    case False
    have "updateLossHistory_loop h ts = Inr (commitToHistory_spec h ts)"
      using Cons.prems by (intro Cons.IH) simp
    then show ?thesis unfolding t loop_step_skipped [OF False] using False
      by (simp add: commitToHistory_spec_def)
  qed
qed

lemma updateLossHistory_loop_KeyError:
  "(\<exists>(n, w, v) \<in> set ts. w > 0 \<and> h n = None) \<Longrightarrow>
   \<exists>h'. updateLossHistory_loop h ts = Inl (KeyError, h')"
proof (induction ts arbitrary: h)
  case Nil
  then show ?case by simp
next
  case (Cons t ts)
  obtain n w v where t: "t = (n, w, v)" by (cases t) auto
  show ?case
  proof (cases "w > 0")
    case False
    then have "\<exists>(n, w, v) \<in> set ts. w > 0 \<and> h n = None" using Cons.prems t by auto
    from Cons.IH [OF this] show ?thesis unfolding t loop_step_skipped [OF False] .
  next
    case True
    show ?thesis
    proof (cases "h n")
      case None
      then show ?thesis using True by (simp add: t)
    next
      case (Some xs)
      obtain n' w' v' where m: "(n', w', v') \<in> set ts" "w' > 0" "h n' = None"
        using Cons.prems t Some by auto
      then have "n' \<noteq> n" using Some by auto
      then have "commitToHistory_term h (n, w, v) n' = None" using Some m(3) by simp
      then have "\<exists>(n', w', v') \<in> set ts. w' > 0 \<and> commitToHistory_term h (n, w, v) n' = None"
        using m(1,2) by blast
      from Cons.IH [OF this] show ?thesis unfolding t loop_step_positive [where h = h and name = n, OF True Some] .
    qed
  qed
qed

lemma regularizable_empty:
  "(\<forall>(name, p) \<in> set model. contains ''.bias'' name \<or> \<not> requires_grad p) \<Longrightarrow>
   regularizable model = []"
  unfolding regularizable_def by (induction model) auto

subsection \<open>The total\<close>

text \<open>
  Claim C1. After construction or after a reset, any sequence of \<^verbatim>\<open>addToLosses\<close>
  calls makes \<^verbatim>\<open>computeTotalLoss\<close> return the sum of \<open>weight * value\<close> over the
  added terms, which is also the left-to-right sum in the order of insertion; with no term
  added it returns zero.
\<close>

theorem computeTotalLoss_weighted_sum:
  "computeTotalLoss (add_all (resetLosses lm) ts) = Inr (\<Sum>(n, w, v)\<leftarrow>ts. w * v) \<and>
   (LossManager_init model l1_reg h = Inr lm0 \<longrightarrow>
      computeTotalLoss (add_all lm0 ts) = Inr (\<Sum>(n, w, v)\<leftarrow>ts. w * v)) \<and>
   (\<Sum>(n, w, v)\<leftarrow>ts. w * v) = foldl (\<lambda>s (n, w, v). s + w * v) 0 ts \<and>
   computeTotalLoss (add_all (resetLosses lm) []) = Inr 0 \<and>
   (LossManager_init model l1_reg h = Inr lm0 \<longrightarrow> computeTotalLoss (add_all lm0 []) = Inr 0)"
proof -
  have r: "computeTotalLoss (add_all (resetLosses lm) us) = Inr (\<Sum>(n, w, v)\<leftarrow>us. w * v)" for us
    by (rule total_after_adds) (simp_all add: resetLosses_def)
  have i: "computeTotalLoss (add_all lm0 us) = Inr (\<Sum>(n, w, v)\<leftarrow>us. w * v)"
    if "LossManager_init model l1_reg h = Inr lm0" for us
    using init_fresh [OF that] by (intro total_after_adds) simp_all
  have s: "(\<Sum>(n, w, v)\<leftarrow>ts. w * v) = foldl (\<lambda>s (n, w, v). s + w * v) 0 ts"
    by (simp add: foldl_terms_sum)
  show ?thesis using r [of ts] r [of "[]"] i [of ts] i [of "[]"] s by simp
qed

theorem computeTotalLoss_weighted_sum_witness:
  "LossManager_init [(''fc.weight'', \<lparr>requires_grad = True, size_of = [2, 3]\<rparr>)] 0 None =
     Inr \<lparr>reg_params = [\<lparr>requires_grad = True, size_of = [2, 3]\<rparr>], l1_coeff = 0,
          loss_history = None, names = [], weights = [], losses = []\<rparr> \<and>
   computeTotalLoss
     (add_all \<lparr>reg_params = [\<lparr>requires_grad = True, size_of = [2, 3]\<rparr>], l1_coeff = 0,
          loss_history = None, names = [], weights = [], losses = []\<rparr>
        [(''forward_loss'', 2, 3), (''inverse_loss'', 1 / 2, 4)]) = Inr 8"
proof -
  have i: "LossManager_init [(''fc.weight'', \<lparr>requires_grad = True, size_of = [2, 3]\<rparr>)] 0 None =
     Inr \<lparr>reg_params = [\<lparr>requires_grad = True, size_of = [2, 3]\<rparr>], l1_coeff = 0,
          loss_history = None, names = [], weights = [], losses = []\<rparr>"
    by (simp add: LossManager_init_def regularizable_def)
  show ?thesis
    using i computeTotalLoss_weighted_sum
      [of "\<lparr>reg_params = [], l1_coeff = 0, loss_history = None, names = [''kl_loss''],
            weights = [1], losses = [1]\<rparr>" "[(''forward_loss'', 2, 3), (''inverse_loss'', 1 / 2, 4)]"
          "[(''fc.weight'', \<lparr>requires_grad = True, size_of = [2, 3]\<rparr>)]" 0 None
          "\<lparr>reg_params = [\<lparr>requires_grad = True, size_of = [2, 3]\<rparr>], l1_coeff = 0,
          loss_history = None, names = [], weights = [], losses = []\<rparr>"]
    by simp
qed

subsection \<open>The commit to the history\<close>

text \<open>
  Claim C2. Without a history \<^verbatim>\<open>updateLossHistory\<close> returns the accumulator as it
  is. With a history in which every recorded name of positive weight has a slot, it returns
  normally, changes nothing but the history, and the history is the one the
  specification's words give: exactly the recorded terms of weight > 0 are processed, in
  order, each one adding \<open>weight * value\<close> to the last entry of its name's sequence when
  there is one and appending it as a new entry otherwise.
\<close>

theorem updateLossHistory_commits:
  "(loss_history lm = None \<longrightarrow> updateLossHistory lm = Inr lm) \<and>
   (loss_history lm = Some h \<and> (\<forall>(name, w, v) \<in> set (recorded lm). w > 0 \<longrightarrow> h name \<noteq> None) \<longrightarrow>
      updateLossHistory lm =
        Inr (lm\<lparr>loss_history := Some (commitToHistory_spec h (recorded lm))\<rparr>))"
proof -
  have "updateLossHistory_loop h (recorded lm) = Inr (commitToHistory_spec h (recorded lm))"
    if "\<forall>(name, w, v) \<in> set (recorded lm). w > 0 \<longrightarrow> h name \<noteq> None"
    using that by (intro updateLossHistory_loop_spec) (auto simp: dom_def)
  then show ?thesis
    by (auto simp: updateLossHistory_def recorded_def)
qed

theorem updateLossHistory_commits_witness:
  "\<exists>h'. updateLossHistory
      \<lparr>reg_params = [\<lparr>requires_grad = True, size_of = [2, 3]\<rparr>], l1_coeff = 0,
       loss_history = Some [''a'' \<mapsto> [1, 1], ''b'' \<mapsto> []],
       names = [''a'', ''b'', ''c'', ''b''], weights = [2, 1, 0, 3], losses = [3, 4, 5, 1]\<rparr> =
     Inr \<lparr>reg_params = [\<lparr>requires_grad = True, size_of = [2, 3]\<rparr>], l1_coeff = 0,
       loss_history = Some h',
       names = [''a'', ''b'', ''c'', ''b''], weights = [2, 1, 0, 3], losses = [3, 4, 5, 1]\<rparr> \<and>
     h' ''a'' = Some [1, 7] \<and> h' ''b'' = Some [7] \<and> h' ''c'' = None"
  using updateLossHistory_commits
    [of "\<lparr>reg_params = [\<lparr>requires_grad = True, size_of = [2, 3]\<rparr>], l1_coeff = 0,
       loss_history = Some [''a'' \<mapsto> [1, 1], ''b'' \<mapsto> []],
       names = [''a'', ''b'', ''c'', ''b''], weights = [2, 1, 0, 3], losses = [3, 4, 5, 1]\<rparr>"
      "[''a'' \<mapsto> [1, 1], ''b'' \<mapsto> []]"]
  by (simp add: recorded_def commitToHistory_spec_def commit_entry_def)

subsection \<open>Two commits with no reset between them\<close>

text \<open>
  Claim C3, as the code has it. On a fresh accumulator whose history has an empty slot for
  \<^verbatim>\<open>"x"\<close>, the calls add ("x", 1, 2.0), commit, add ("x", 1, 3.0), commit leave one
  entry under \<^verbatim>\<open>"x"\<close>: the two commits merge into one history point. Its value is
  7.0, not 5.0: with no reset the first term is still recorded at the second commit, which
  adds 2.0 again and then 3.0 to the 2.0 of the first commit.
\<close>

theorem two_commits_without_reset:
  assumes "names lm = []" and "weights lm = []" and "losses lm = []"
    and "loss_history lm = Some h" and "h ''x'' = Some []"
  shows "\<exists>h'. loss_history (run lm [Add ''x'' 1 2, Commit, Add ''x'' 1 3, Commit]) = Some h' \<and>
              h' ''x'' = Some [7]"
  using assms by (simp add: addToLosses_def updateLossHistory_def)

theorem two_commits_without_reset_witness:
  "\<exists>h'. loss_history
      (run \<lparr>reg_params = [\<lparr>requires_grad = True, size_of = [2, 3]\<rparr>], l1_coeff = 0,
            loss_history = Some [''x'' \<mapsto> []], names = [], weights = [], losses = []\<rparr>
         [Add ''x'' 1 2, Commit, Add ''x'' 1 3, Commit]) = Some h' \<and> h' ''x'' = Some [7]"
  using two_commits_without_reset
    [of "\<lparr>reg_params = [\<lparr>requires_grad = True, size_of = [2, 3]\<rparr>], l1_coeff = 0,
            loss_history = Some [''x'' \<mapsto> []], names = [], weights = [], losses = []\<rparr>"
        "[''x'' \<mapsto> []]"]
  by simp

text \<open>
  The value 5.0 that claim C3 states for the last entry of \<^verbatim>\<open>history["x"]\<close> is not
  what the calls leave.
\<close>

theorem two_commits_last_entry_counterexample:
  "map_option (\<lambda>h. h ''x'')
     (loss_history
        (run \<lparr>reg_params = [\<lparr>requires_grad = True, size_of = [2, 3]\<rparr>], l1_coeff = 0,
              loss_history = Some [''x'' \<mapsto> []], names = [], weights = [], losses = []\<rparr>
           [Add ''x'' 1 2, Commit, Add ''x'' 1 3, Commit])) = Some (Some [7]) \<and>
   map_option (\<lambda>h. map_option last (h ''x''))
     (loss_history
        (run \<lparr>reg_params = [\<lparr>requires_grad = True, size_of = [2, 3]\<rparr>], l1_coeff = 0,
              loss_history = Some [''x'' \<mapsto> []], names = [], weights = [], losses = []\<rparr>
           [Add ''x'' 1 2, Commit, Add ''x'' 1 3, Commit])) \<noteq> Some (Some 5)"
  by (simp add: addToLosses_def updateLossHistory_def)

subsection \<open>The invariant of the three lists\<close>

text \<open>
  Claim C4. From construction on, after any sequence of \<^verbatim>\<open>addToLosses\<close>,
  \<^verbatim>\<open>computeTotalLoss\<close>, \<^verbatim>\<open>updateLossHistory\<close> and \<^verbatim>\<open>resetLosses\<close> calls, the
  lists \<^verbatim>\<open>names\<close>, \<^verbatim>\<open>weights\<close> and \<^verbatim>\<open>losses\<close> have the same length and
  hold, index by index, the name, the weight and the value of the terms added since the
  last reset; \<^verbatim>\<open>addToLosses\<close> appends to all three, and after \<^verbatim>\<open>resetLosses\<close> all
  three are empty.
\<close>

theorem lockstep_invariant:
  assumes "LossManager_init model l1_reg h = Inr lm0"
  shows "length (names (run lm0 cs)) = length (weights (run lm0 cs)) \<and>
         length (weights (run lm0 cs)) = length (losses (run lm0 cs)) \<and>
         names (run lm0 cs) = map fst (pending [] cs) \<and>
         weights (run lm0 cs) = map (fst \<circ> snd) (pending [] cs) \<and>
         losses (run lm0 cs) = map (snd \<circ> snd) (pending [] cs) \<and>
         names (addToLosses (run lm0 cs) n w v) = names (run lm0 cs) @ [n] \<and>
         weights (addToLosses (run lm0 cs) n w v) = weights (run lm0 cs) @ [w] \<and>
         losses (addToLosses (run lm0 cs) n w v) = losses (run lm0 cs) @ [v] \<and>
         names (resetLosses (run lm0 cs)) = [] \<and>
         weights (resetLosses (run lm0 cs)) = [] \<and>
         losses (resetLosses (run lm0 cs)) = []"
proof -
  have "lockstep lm0 \<and> recorded lm0 = []"
    using init_fresh [OF assms] by (intro lockstep_fresh) simp_all
  then have l: "lockstep (run lm0 cs)" and r: "recorded (run lm0 cs) = pending [] cs"
    using run_pending [of lm0 cs] by simp_all
  have n: "names (run lm0 cs) = map fst (recorded (run lm0 cs))"
    and w: "weights (run lm0 cs) = map (fst \<circ> snd) (recorded (run lm0 cs))"
    and v: "losses (run lm0 cs) = map (snd \<circ> snd) (recorded (run lm0 cs))"
    using l by (simp_all add: lockstep_def recorded_def flip: map_map)
  show ?thesis using l n w v unfolding r
    by (simp add: lockstep_def addToLosses_def resetLosses_def)
qed

theorem lockstep_invariant_witness:
  "LossManager_init [(''fc.weight'', \<lparr>requires_grad = True, size_of = [2, 3]\<rparr>)] 0
      (Some [''a'' \<mapsto> []]) =
     Inr \<lparr>reg_params = [\<lparr>requires_grad = True, size_of = [2, 3]\<rparr>], l1_coeff = 0,
          loss_history = Some [''a'' \<mapsto> []], names = [], weights = [], losses = []\<rparr> \<and>
   names (run \<lparr>reg_params = [\<lparr>requires_grad = True, size_of = [2, 3]\<rparr>], l1_coeff = 0,
          loss_history = Some [''a'' \<mapsto> []], names = [], weights = [], losses = []\<rparr>
        [Add ''a'' 1 2, Commit, Reset, Add ''b'' 3 4, Total, Commit, Add ''c'' 5 6]) = [''b'', ''c''] \<and>
   weights (run \<lparr>reg_params = [\<lparr>requires_grad = True, size_of = [2, 3]\<rparr>], l1_coeff = 0,
          loss_history = Some [''a'' \<mapsto> []], names = [], weights = [], losses = []\<rparr>
        [Add ''a'' 1 2, Commit, Reset, Add ''b'' 3 4, Total, Commit, Add ''c'' 5 6]) = [3, 5] \<and>
   losses (run \<lparr>reg_params = [\<lparr>requires_grad = True, size_of = [2, 3]\<rparr>], l1_coeff = 0,
          loss_history = Some [''a'' \<mapsto> []], names = [], weights = [], losses = []\<rparr>
        [Add ''a'' 1 2, Commit, Reset, Add ''b'' 3 4, Total, Commit, Add ''c'' 5 6]) = [4, 6]"
proof -
  have i: "LossManager_init [(''fc.weight'', \<lparr>requires_grad = True, size_of = [2, 3]\<rparr>)] 0
      (Some [''a'' \<mapsto> []]) =
     Inr \<lparr>reg_params = [\<lparr>requires_grad = True, size_of = [2, 3]\<rparr>], l1_coeff = 0,
          loss_history = Some [''a'' \<mapsto> []], names = [], weights = [], losses = []\<rparr>"
    by (simp add: LossManager_init_def regularizable_def)
  show ?thesis
    using i lockstep_invariant [OF i,
        of "[Add ''a'' 1 2, Commit, Reset, Add ''b'' 3 4, Total, Commit, Add ''c'' 5 6]" "''d''" 0 0]
    by (simp del: run.simps)
qed

subsection \<open>The reset\<close>

text \<open>
  Claim C5. \<^verbatim>\<open>resetLosses\<close> empties the three lists and leaves every other field,
  the history among them, as it was; \<^verbatim>\<open>computeTotalLoss\<close> on the reset accumulator
  returns zero, and the three lists have length zero.
\<close>

theorem resetLosses_frame:
  "names (resetLosses lm) = [] \<and> weights (resetLosses lm) = [] \<and> losses (resetLosses lm) = [] \<and>
   loss_history (resetLosses lm) = loss_history lm \<and>
   l1_coeff (resetLosses lm) = l1_coeff lm \<and>
   reg_params (resetLosses lm) = reg_params lm \<and>
   computeTotalLoss (resetLosses lm) = Inr 0 \<and>
   length (names (resetLosses lm)) = 0 \<and> length (weights (resetLosses lm)) = 0 \<and>
   length (losses (resetLosses lm)) = 0"
  by (simp add: resetLosses_def computeTotalLoss_def)

subsection \<open>Violated preconditions\<close>

text \<open>
  Claim C8. Constructing the accumulator on a model none of whose parameters is trainable
  and not a bias raises \<^verbatim>\<open>ZeroDivisionError\<close>; \<^verbatim>\<open>updateLossHistory\<close> with a
  history and a recorded term of weight > 0 whose name is not a key of it raises
  \<^verbatim>\<open>KeyError\<close>. Both errors reach the caller: no path of the model turns them into a
  normal return.
\<close>

theorem precondition_violations_raise:
  "((\<forall>(name, p) \<in> set model. contains ''.bias'' name \<or> \<not> requires_grad p) \<longrightarrow>
      LossManager_init model l1_reg hist = Inl ZeroDivisionError) \<and>
   (loss_history lm = Some h \<and> (\<exists>(name, w, v) \<in> set (recorded lm). w > 0 \<and> h name = None) \<longrightarrow>
      (\<exists>lm'. updateLossHistory lm = Inl (KeyError, lm')))"
proof -
  have a: "LossManager_init model l1_reg hist = Inl ZeroDivisionError"
    if "\<forall>(name, p) \<in> set model. contains ''.bias'' name \<or> \<not> requires_grad p"
    using regularizable_empty [OF that] by (simp add: LossManager_init_def)
  have b: "\<exists>lm'. updateLossHistory lm = Inl (KeyError, lm')"
    if hh: "loss_history lm = Some h" and ex: "\<exists>(name, w, v) \<in> set (recorded lm). w > 0 \<and> h name = None"
  proof -
    obtain h' where "updateLossHistory_loop h (recorded lm) = Inl (KeyError, h')"
      using updateLossHistory_loop_KeyError [OF ex] by blast
    then show ?thesis using hh by (simp add: updateLossHistory_def recorded_def)
  qed
  show ?thesis using a b by blast
qed

theorem precondition_violations_raise_witness:
  "LossManager_init
     [(''fc.bias'', \<lparr>requires_grad = True, size_of = [3]\<rparr>),
      (''conv.weight'', \<lparr>requires_grad = False, size_of = [2, 2]\<rparr>)] 1 None =
     Inl ZeroDivisionError \<and>
   (\<exists>lm'. updateLossHistory
      \<lparr>reg_params = [\<lparr>requires_grad = True, size_of = [2, 3]\<rparr>], l1_coeff = 0,
       loss_history = Some [''a'' \<mapsto> []],
       names = [''a'', ''b''], weights = [1, 1], losses = [2, 3]\<rparr> = Inl (KeyError, lm'))"
  using precondition_violations_raise
    [of "[(''fc.bias'', \<lparr>requires_grad = True, size_of = [3]\<rparr>),
      (''conv.weight'', \<lparr>requires_grad = False, size_of = [2, 2]\<rparr>)]" 1 None
      "\<lparr>reg_params = [\<lparr>requires_grad = True, size_of = [2, 3]\<rparr>], l1_coeff = 0,
       loss_history = Some [''a'' \<mapsto> []],
       names = [''a'', ''b''], weights = [1, 1], losses = [2, 3]\<rparr>" "[''a'' \<mapsto> []]"]
  by (simp add: recorded_def del: One_nat_def)

section \<open>Properties of the loss functions\<close>

subsection \<open>What the variational loss registers\<close>


subsection \<open>The triplet loss\<close>











subsection \<open>Divisions in the mutual-information and reward-prior losses\<close>

























subsection \<open>What each loss function registers\<close>


















end
